theory Spec2Isabelle
  imports Main "HOL-Library.AList"
begin

section \<open>The world of \<^verbatim>\<open>fetch.py\<close>\<close>

text \<open>
  \<^verbatim>\<open>dbGaPFileFetcher\<close> drives two external programs through
  \<^verbatim>\<open>subprocess.call(cmd, shell=True)\<close> and works on two places of the file system:
  the \<^verbatim>\<open>tempfile.TemporaryDirectory()\<close> of the running \<^verbatim>\<open>download_files\<close> call and
  the path \<^verbatim>\<open>self.output_dir\<close>, two places of which neither lies in the other. A directory
  is the list of its entries in the order \<^verbatim>\<open>os.listdir\<close> reports them; a file is its
  content. There are files and directories only (no links, no permissions), and the functions
  of \<^verbatim>\<open>os\<close>, \<^verbatim>\<open>csv\<close> and \<^verbatim>\<open>shutil\<close> that the code calls are written out below as the
  Python library documents them. The code also asks for the current directory of the process and
  changes it: into the temporary directory, and back after a successful download only.
\<close>

datatype node = File string | Dir "(string \<times> node) list"

type_synonym entries = "(string \<times> node) list"

text \<open>
  The exceptions the code raises itself or lets pass from the Python library. Of
  \<^verbatim>\<open>shutil.Error\<close> the names of the entries that were not copied are kept, not the text of
  its messages.
\<close>

datatype error =
    KeyError string
  | FileNotFoundError string
  | FileExistsError string
  | IsADirectoryError string
  | RuntimeError string
  | ShutilError "string list"

text \<open>Who ran a command: \<^verbatim>\<open>_run_prefetch\<close> or \<^verbatim>\<open>_untar\<close>.\<close>

datatype caller = Downloader | Extractor

text \<open>
  \<open>temp\<close> is the temporary directory (\<open>None\<close>: it does not exist), \<open>out\<close> is what
  sits at \<^verbatim>\<open>self.output_dir\<close> (\<open>None\<close>: nothing), \<open>manifests cwd path\<close> is what
  \<^verbatim>\<open>open(path)\<close> finds while the current directory is \<open>cwd\<close>: the rows of the CSV
  file as \<^verbatim>\<open>csv.reader\<close> yields them, header row first. \<open>calls\<close> records every command
  handed to \<^verbatim>\<open>subprocess.call\<close>, in order.

  \<open>cwd\<close> is the current directory of the process, and \<open>exists_dir p\<close> tells whether the
  path \<open>p\<close> names a directory that exists; it is asked about the directories the process
  stands in or goes to (\<^verbatim>\<open>os.getcwd\<close>, \<^verbatim>\<open>os.chdir\<close>), whose contents are not its
  matter. A process stays in its current directory when that directory is removed, which is what
  happens to the temporary directory at the end of a call that did not go back.
\<close>

record world =
  temp :: "entries option"
  out :: "node option"
  exists_dir :: "string \<Rightarrow> bool"
  manifests :: "string \<Rightarrow> string \<Rightarrow> string list list option"
  cwd :: string
  calls :: "(caller \<times> string) list"

text \<open>
  What the program cannot decide: the effect and exit status of a shell command, the path that
  \<^verbatim>\<open>os.path.abspath\<close> computes from a current directory and a path (joined if the path is
  relative, and normalised), and the name \<^verbatim>\<open>tempfile\<close> picks.
\<close>

record tools =
  shell :: "string \<Rightarrow> world \<Rightarrow> int \<times> world"
  abspath :: "string \<Rightarrow> string \<Rightarrow> string"
  mkdtemp :: "world \<Rightarrow> string"

record fetcher =
  ngc_file :: string
  prefetch :: string
  output_dir :: string

subsection \<open>Strings, paths and the current directory\<close>

definition endswith :: "string \<Rightarrow> string \<Rightarrow> bool" where
  "endswith s suffix = (length suffix \<le> length s \<and> drop (length s - length suffix) s = suffix)"

definition startswith :: "string \<Rightarrow> string \<Rightarrow> bool" where
  "startswith s p = (take (length p) s = p)"

text \<open>\<^verbatim>\<open>s.split(sep)[0]\<close>: the text before the first occurrence of \<open>sep\<close>, all of \<open>s\<close>
  when there is none.\<close>

fun split_0 :: "string \<Rightarrow> string \<Rightarrow> string" where
  "split_0 sep [] = []"
| "split_0 sep (c # cs) = (if startswith (c # cs) sep then [] else c # split_0 sep cs)"

text \<open>\<^verbatim>\<open>os.path.join(a, b)\<close> on POSIX.\<close>

definition path_join :: "string \<Rightarrow> string \<Rightarrow> string" where
  "path_join a b =
     (if startswith b ''/'' then b
      else if a = [] \<or> endswith a ''/'' then a @ b
      else a @ ''/'' @ b)"

text \<open>
  \<^verbatim>\<open>os.getcwd()\<close> raises \<^verbatim>\<open>FileNotFoundError\<close> (with no file name) when the current
  directory has been removed.
\<close>

definition os_getcwd :: "world \<Rightarrow> error + string" where
  "os_getcwd w = (if exists_dir w (cwd w) then Inr (cwd w) else Inl (FileNotFoundError []))"

text \<open>
  \<^verbatim>\<open>os.path.abspath(path)\<close>: an absolute path is normalised as it is; a relative one is
  first joined to \<^verbatim>\<open>os.getcwd()\<close>, whose exception it lets pass.
\<close>

definition os_path_abspath :: "tools \<Rightarrow> string \<Rightarrow> world \<Rightarrow> error + string" where
  "os_path_abspath t path w =
     (if startswith path ''/'' then Inr (abspath t (cwd w) path)
      else (case os_getcwd w of
              Inl e \<Rightarrow> Inl e
            | Inr current \<Rightarrow> Inr (abspath t current path)))"

text \<open>\<^verbatim>\<open>os.chdir(path)\<close> raises when \<open>path\<close> names no directory.\<close>

definition os_chdir :: "string \<Rightarrow> world \<Rightarrow> error + world" where
  "os_chdir path w =
     (if exists_dir w path then Inr (w\<lparr>cwd := path\<rparr>) else Inl (FileNotFoundError path))"

subsection \<open>\<^verbatim>\<open>__init__\<close>\<close>

definition init :: "tools \<Rightarrow> world \<Rightarrow> string \<Rightarrow> string \<Rightarrow> string \<Rightarrow> error + fetcher" where
  "init t w ngc pf outdir =
     (case os_path_abspath t ngc w of
        Inl e \<Rightarrow> Inl e
      | Inr ngc_abs \<Rightarrow>
          (case os_path_abspath t pf w of
             Inl e \<Rightarrow> Inl e
           | Inr prefetch_abs \<Rightarrow>
               (case os_path_abspath t outdir w of
                  Inl e \<Rightarrow> Inl e
                | Inr output_abs \<Rightarrow>
                    Inr \<lparr>ngc_file = ngc_abs, prefetch = prefetch_abs, output_dir = output_abs\<rparr>)))"

subsection \<open>\<^verbatim>\<open>subprocess.call\<close>\<close>

text \<open>
  \<^verbatim>\<open>subprocess.call(cmd, shell=True)\<close>: the command runs in a child process, which can
  change the file system (and remove directories) but neither the current directory of the caller
  nor the record of calls.
\<close>

definition subprocess_call :: "tools \<Rightarrow> caller \<Rightarrow> string \<Rightarrow> world \<Rightarrow> int \<times> world" where
  "subprocess_call t who cmd w =
     (case shell t cmd w of
        (returned_value, w') \<Rightarrow>
          (returned_value, w'\<lparr>cwd := cwd w, calls := calls w @ [(who, cmd)]\<rparr>))"

subsection \<open>\<^verbatim>\<open>_run_prefetch\<close>\<close>

definition prefetch_cmd :: "fetcher \<Rightarrow> string \<Rightarrow> string" where
  "prefetch_cmd self cart_file =
     (let cmd = prefetch self @ '' --ngc '' @ ngc_file self @ '' --order kart --cart '' @ cart_file
                  @ '' --max-size 500000000''
      in if output_dir self \<noteq> [] then cmd @ '' --output-directory '' @ output_dir self else cmd)"

definition run_prefetch :: "tools \<Rightarrow> fetcher \<Rightarrow> string \<Rightarrow> world \<Rightarrow> int \<times> world" where
  "run_prefetch t self cart_file w = subprocess_call t Downloader (prefetch_cmd self cart_file) w"

subsection \<open>\<^verbatim>\<open>_read_manifest\<close> and \<^verbatim>\<open>csv.DictReader\<close>\<close>

text \<open>
  A row of \<^verbatim>\<open>csv.DictReader\<close> is \<^verbatim>\<open>dict(zip(fieldnames, row))\<close>; when the row is
  shorter than the header the remaining field names are set to \<^verbatim>\<open>restval\<close>, which is
  Python's \<^verbatim>\<open>None\<close>. A cell is therefore a \<open>string option\<close>. (Surplus cells go under
  the key \<^verbatim>\<open>None\<close>, which no string key reads.)
\<close>

type_synonym pydict = "string \<Rightarrow> string option option"

text \<open>The assignment \<^verbatim>\<open>d[k] = v\<close>.\<close>

definition setitem :: "pydict \<Rightarrow> string \<Rightarrow> string option \<Rightarrow> pydict" where
  "setitem d k v = d(k \<mapsto> v)"

definition dict_row :: "string list \<Rightarrow> string list \<Rightarrow> pydict" where
  "dict_row fieldnames row =
     (let d = fold (\<lambda>(k, v) d. setitem d k (Some v)) (zip fieldnames row) Map.empty
      in if length fieldnames > length row
         then fold (\<lambda>k d. setitem d k None) (drop (length row) fieldnames) d
         else d)"

text \<open>
  The first row read is the header, whatever it holds; of the later rows the empty ones are
  skipped. A file with no row yields nothing.
\<close>

definition DictReader :: "string list list \<Rightarrow> pydict list" where
  "DictReader rows =
     (case rows of
        [] \<Rightarrow> []
      | fieldnames # rest \<Rightarrow> map (dict_row fieldnames) (filter (\<lambda>row. row \<noteq> []) rest))"

text \<open>The loop \<^verbatim>\<open>for row in cf: files.append(row["File Name"])\<close>.\<close>

fun append_file_names :: "pydict list \<Rightarrow> string option list \<Rightarrow> error + string option list" where
  "append_file_names [] files = Inr files"
| "append_file_names (row # cf) files =
     (case row ''File Name'' of
        None \<Rightarrow> Inl (KeyError ''File Name'')
      | Some v \<Rightarrow> append_file_names cf (files @ [v]))"

definition read_manifest :: "world \<Rightarrow> string \<Rightarrow> error + string option list" where
  "read_manifest w manifest =
     (case manifests w (cwd w) manifest of
        None \<Rightarrow> Inl (FileNotFoundError manifest)
      | Some rows \<Rightarrow> append_file_names (DictReader rows) [])"

subsection \<open>The two checks\<close>

definition listdir :: "world \<Rightarrow> string \<Rightarrow> error + string list" where
  "listdir w directory =
     (case temp w of
        None \<Rightarrow> Inl (FileNotFoundError directory)
      | Some es \<Rightarrow> Inr (map fst es))"

definition check_prefetch_against_manifest :: "world \<Rightarrow> string \<Rightarrow> string \<Rightarrow> error + bool" where
  "check_prefetch_against_manifest w directory manifest =
     (case read_manifest w manifest of
        Inl e \<Rightarrow> Inl e
      | Inr expected_files \<Rightarrow>
          (case listdir w directory of
             Inl e \<Rightarrow> Inl e
           | Inr downloaded_files \<Rightarrow> Inr (set (map Some downloaded_files) = set expected_files)))"

definition check_prefetch_against_n_files :: "world \<Rightarrow> string \<Rightarrow> int \<Rightarrow> error + bool" where
  "check_prefetch_against_n_files w directory n_files =
     (case listdir w directory of
        Inl e \<Rightarrow> Inl e
      | Inr downloaded_files \<Rightarrow> Inr (int (length downloaded_files) = n_files))"

text \<open>
  Python's truth test: \<^verbatim>\<open>None\<close> and the empty string are false in
  \<^verbatim>\<open>if manifest\<close>, \<^verbatim>\<open>None\<close> and \<open>0\<close> are false in \<^verbatim>\<open>elif n_files\<close>.
\<close>

definition truthy_str :: "string option \<Rightarrow> bool" where
  "truthy_str x = (case x of None \<Rightarrow> False | Some s \<Rightarrow> s \<noteq> [])"

definition truthy_int :: "int option \<Rightarrow> bool" where
  "truthy_int x = (case x of None \<Rightarrow> False | Some n \<Rightarrow> n \<noteq> 0)"

text \<open>Lines 55 to 61 of \<^verbatim>\<open>download_files\<close>.\<close>

definition verify :: "world \<Rightarrow> string \<Rightarrow> string option \<Rightarrow> int option \<Rightarrow> error + bool" where
  "verify w temp_dir manifest n_files =
     (if truthy_str manifest then check_prefetch_against_manifest w temp_dir (the manifest)
      else if truthy_int n_files then check_prefetch_against_n_files w temp_dir (the n_files)
      else Inr True)"

subsection \<open>The attempt loop\<close>

text \<open>
  Lines 49 to 62: \<^verbatim>\<open>while not all_files_downloaded\<close>. The loop has no bound of its own,
  so the model counts iterations down from a fuel; \<open>None\<close> says that the loop was still running
  when the fuel ran out. \<open>Inr False\<close> is the \<^verbatim>\<open>return False\<close> of line 54, \<open>Inr True\<close>
  the exit of the loop, \<open>Inl e\<close> an exception raised by a check.
\<close>

fun attempts :: "nat \<Rightarrow> tools \<Rightarrow> fetcher \<Rightarrow> string \<Rightarrow> string \<Rightarrow> string option \<Rightarrow> int option \<Rightarrow> int
                   \<Rightarrow> int \<Rightarrow> world \<Rightarrow> ((error + bool) \<times> world) option" where
  "attempts 0 t self cart_file temp_dir manifest n_files n_retries i w = None"
| "attempts (Suc fuel) t self cart_file temp_dir manifest n_files n_retries i w =
     (case run_prefetch t self cart_file w of
        (returned_value, w1) \<Rightarrow>
          if i = n_retries then Some (Inr False, w1)
          else (case verify w1 temp_dir manifest n_files of
                  Inl e \<Rightarrow> Some (Inl e, w1)
                | Inr all_files_downloaded \<Rightarrow>
                    if all_files_downloaded then Some (Inr True, w1)
                    else attempts fuel t self cart_file temp_dir manifest n_files n_retries (i + 1) w1))"

subsection \<open>\<^verbatim>\<open>_untar\<close>\<close>

text \<open>
  \<^verbatim>\<open>os.mkdir(os.path.join(directory, name))\<close> in the temporary directory. Entry names come
  from \<^verbatim>\<open>os.listdir\<close> and hold no slash, and \<open>name\<close> is the beginning of one; the empty
  name, \<^verbatim>\<open>.\<close> and \<^verbatim>\<open>..\<close> name directories that exist.
\<close>

definition os_mkdir :: "string \<Rightarrow> string \<Rightarrow> world \<Rightarrow> error + world" where
  "os_mkdir directory name w =
     (case temp w of
        None \<Rightarrow> Inl (FileNotFoundError (path_join directory name))
      | Some es \<Rightarrow>
          if name = [] \<or> name = ''.'' \<or> name = ''..'' \<or> name \<in> set (map fst es)
          then Inl (FileExistsError (path_join directory name))
          else Inr (w\<lparr>temp := Some (es @ [(name, Dir [])])\<rparr>))"

text \<open>\<^verbatim>\<open>os.remove(os.path.join(directory, f))\<close> for an entry name \<open>f\<close>.\<close>

definition os_remove :: "string \<Rightarrow> string \<Rightarrow> world \<Rightarrow> error + world" where
  "os_remove directory f w =
     (case temp w of
        None \<Rightarrow> Inl (FileNotFoundError (path_join directory f))
      | Some es \<Rightarrow>
          (case map_of es f of
             None \<Rightarrow> Inl (FileNotFoundError (path_join directory f))
           | Some (Dir sub) \<Rightarrow> Inl (IsADirectoryError (path_join directory f))
           | Some (File c) \<Rightarrow> Inr (w\<lparr>temp := Some (AList.delete f es)\<rparr>)))"

definition is_tar :: "string \<Rightarrow> bool" where
  "is_tar f = (endswith f ''.tar'' \<or> endswith f ''.tar.gz'')"

definition tar_cmd :: "string \<Rightarrow> string \<Rightarrow> string" where
  "tar_cmd f extract_directory = ''tar -xvf '' @ f @ '' -C '' @ extract_directory"

text \<open>The loop \<^verbatim>\<open>for f in tar_files\<close>, lines 120 to 130.\<close>

fun untar_loop :: "tools \<Rightarrow> string \<Rightarrow> string list \<Rightarrow> world \<Rightarrow> (error + unit) \<times> world" where
  "untar_loop t directory [] w = (Inr (), w)"
| "untar_loop t directory (f # tar_files) w =
     (let extract_directory = path_join directory (split_0 ''.tar'' f)
      in case os_mkdir directory (split_0 ''.tar'' f) w of
           Inl e \<Rightarrow> (Inl e, w)
         | Inr w1 \<Rightarrow>
             (case subprocess_call t Extractor (tar_cmd f extract_directory) w1 of
                (returned_value, w2) \<Rightarrow>
                  if returned_value \<noteq> 0 then (Inl (RuntimeError (''Failed to untar '' @ f)), w2)
                  else (case os_remove directory f w2 of
                          Inl e \<Rightarrow> (Inl e, w2)
                        | Inr w3 \<Rightarrow> untar_loop t directory tar_files w3)))"

definition untar :: "tools \<Rightarrow> string \<Rightarrow> world \<Rightarrow> (error + unit) \<times> world" where
  "untar t directory w =
     (case listdir w directory of
        Inl e \<Rightarrow> (Inl e, w)
      | Inr names \<Rightarrow> untar_loop t directory (filter is_tar names) w)"

subsection \<open>\<^verbatim>\<open>shutil.copytree(..., copy_function=shutil.move, dirs_exist_ok=True)\<close>\<close>

text \<open>
  \<^verbatim>\<open>shutil.move(src/name, dst/name)\<close> for a file: when the destination is an existing
  directory the file is moved inside it, unless that place is taken, which raises
  \<^verbatim>\<open>shutil.Error\<close>; otherwise \<^verbatim>\<open>os.rename\<close> puts the file at the destination, replacing
  a file there. The result is what stays in the source, the new destination, and the errors.
\<close>

definition move_file :: "string \<Rightarrow> string \<Rightarrow> entries \<Rightarrow> entries \<times> entries \<times> string list" where
  "move_file name c dst =
     (case map_of dst name of
        Some (Dir d) \<Rightarrow>
          (case map_of d name of
             Some x \<Rightarrow> ([(name, File c)], dst, [name])
           | None \<Rightarrow> ([], AList.update name (Dir (d @ [(name, File c)])) dst, []))
      | Some (File old) \<Rightarrow> ([], AList.update name (File c) dst, [])
      | None \<Rightarrow> ([], AList.update name (File c) dst, []))"

text \<open>
  The loop of \<^verbatim>\<open>copytree\<close> over the entries of the source. A directory is copied by a
  recursive \<^verbatim>\<open>copytree\<close>, whose \<^verbatim>\<open>os.makedirs(dst, exist_ok=True)\<close> fails when the
  destination is a file; a file is handed to \<^verbatim>\<open>shutil.move\<close>. Errors are collected and the
  loop goes on. Source directories stay where they are, emptied of the files that moved.
\<close>

function copy_entries :: "entries \<Rightarrow> entries \<Rightarrow> entries \<times> entries \<times> string list" where
  "copy_entries [] dst = ([], dst, [])"
| "copy_entries ((name, File c) # es) dst =
     (case move_file name c dst of
        (kept, dst1, errs1) \<Rightarrow>
          (case copy_entries es dst1 of
             (src', dst', errs) \<Rightarrow> (kept @ src', dst', errs1 @ errs)))"
| "copy_entries ((name, Dir sub) # es) dst =
     (case map_of dst name of
        Some (File old) \<Rightarrow>
          (case copy_entries es dst of
             (src', dst', errs) \<Rightarrow> ((name, Dir sub) # src', dst', name # errs))
      | Some (Dir dsub) \<Rightarrow>
          (case copy_entries sub dsub of
             (sub', dsub', errs1) \<Rightarrow>
               (case copy_entries es (AList.update name (Dir dsub') dst) of
                  (src', dst', errs) \<Rightarrow> ((name, Dir sub') # src', dst', errs1 @ errs)))
      | None \<Rightarrow>
          (case copy_entries sub [] of
             (sub', dsub', errs1) \<Rightarrow>
               (case copy_entries es (AList.update name (Dir dsub') dst) of
                  (src', dst', errs) \<Rightarrow> ((name, Dir sub') # src', dst', errs1 @ errs))))"
  by pat_completeness auto
termination
  by (relation "measure (\<lambda>(src, dst). size_list (size_prod (\<lambda>x. 0) size) src)") auto

text \<open>
  \<^verbatim>\<open>shutil.copytree(temp_dir, self.output_dir, copy_function=shutil.move,
  dirs_exist_ok=True)\<close>: the source is listed, the destination directory is made unless it exists
  (a file there raises), the entries are copied, and collected errors are raised at the end.
\<close>

definition copytree :: "string \<Rightarrow> string \<Rightarrow> world \<Rightarrow> (error + unit) \<times> world" where
  "copytree src dst w =
     (case temp w of
        None \<Rightarrow> (Inl (FileNotFoundError src), w)
      | Some es \<Rightarrow>
          (case out w of
             Some (File old) \<Rightarrow> (Inl (FileExistsError dst), w)
           | Some (Dir d) \<Rightarrow>
               (case copy_entries es d of
                  (es', d', errs) \<Rightarrow>
                    (if errs \<noteq> [] then Inl (ShutilError errs) else Inr (),
                     w\<lparr>temp := Some es', out := Some (Dir d')\<rparr>))
           | None \<Rightarrow>
               (case copy_entries es [] of
                  (es', d', errs) \<Rightarrow>
                    (if errs \<noteq> [] then Inl (ShutilError errs) else Inr (),
                     w\<lparr>temp := Some es', out := Some (Dir d')\<rparr>))))"

subsection \<open>\<^verbatim>\<open>download_files\<close>\<close>

text \<open>
  Leaving the \<^verbatim>\<open>with tempfile.TemporaryDirectory()\<close> block removes the directory and all
  that is left in it, on every way out: by \<^verbatim>\<open>return\<close> and by an exception. The current
  directory of the process is not changed by that.
\<close>

definition cleanup :: "string \<Rightarrow> world \<Rightarrow> world" where
  "cleanup temp_dir w = w\<lparr>temp := None, exists_dir := (exists_dir w)(temp_dir := False)\<rparr>"

text \<open>Lines 63 to 68: what follows the loop when it was left with all files downloaded.\<close>

definition finish :: "tools \<Rightarrow> fetcher \<Rightarrow> string \<Rightarrow> string \<Rightarrow> bool \<Rightarrow> world \<Rightarrow> (error + bool) \<times> world" where
  "finish t self temp_dir original_working_directory do_untar w =
     (case (if do_untar then untar t temp_dir w else (Inr (), w)) of
        (Inl e, w1) \<Rightarrow> (Inl e, w1)
      | (Inr u, w1) \<Rightarrow>
          (case os_chdir original_working_directory w1 of
             Inl e \<Rightarrow> (Inl e, w1)
           | Inr w2 \<Rightarrow>
               (case copytree temp_dir (output_dir self) w2 of
                  (Inl e, w3) \<Rightarrow> (Inl e, w3)
                | (Inr u', w3) \<Rightarrow> (Inr True, w3))))"

text \<open>
  Lines 44 and 45: the fresh, empty temporary directory is made and entered (\<^verbatim>\<open>tempfile\<close> is
  taken to find room for it).
\<close>

definition start :: "tools \<Rightarrow> world \<Rightarrow> world" where
  "start t w =
     w\<lparr>temp := Some [], exists_dir := (exists_dir w)(mkdtemp t w := True), cwd := mkdtemp t w\<rparr>"

text \<open>
  Lines 42 and 43 come before the temporary directory is made: an exception of
  \<^verbatim>\<open>os.path.abspath\<close> or \<^verbatim>\<open>os.getcwd\<close> leaves \<^verbatim>\<open>download_files\<close> with nothing done.
\<close>

definition download_files :: "nat \<Rightarrow> tools \<Rightarrow> fetcher \<Rightarrow> string \<Rightarrow> string option \<Rightarrow> int option \<Rightarrow> int
                                \<Rightarrow> bool \<Rightarrow> world \<Rightarrow> ((error + bool) \<times> world) option" where
  "download_files fuel t self cart manifest n_files n_retries do_untar w =
     (case os_path_abspath t cart w of
        Inl e \<Rightarrow> Some (Inl e, w)
      | Inr cart_file \<Rightarrow>
          (case os_getcwd w of
             Inl e \<Rightarrow> Some (Inl e, w)
           | Inr original_working_directory \<Rightarrow>
               (let temp_dir = mkdtemp t w;
                    w0 = start t w
                in case attempts fuel t self cart_file temp_dir manifest n_files n_retries 1 w0 of
                     None \<Rightarrow> None
                   | Some (Inl e, w1) \<Rightarrow> Some (Inl e, cleanup temp_dir w1)
                   | Some (Inr False, w1) \<Rightarrow> Some (Inr False, cleanup temp_dir w1)
                   | Some (Inr True, w1) \<Rightarrow>
                       (case finish t self temp_dir original_working_directory do_untar w1 of
                          (r, w2) \<Rightarrow> Some (r, cleanup temp_dir w2)))))"

section \<open>Vocabulary of the properties\<close>

text \<open>How many of the commands run so far were invocations of the Downloader.\<close>

definition downloader_runs :: "world \<Rightarrow> nat" where
  "downloader_runs w = length (filter (\<lambda>c. fst c = Downloader) (calls w))"

text \<open>The world after \<open>j\<close> runs of the Downloader, one after the other, from \<open>w\<close>.\<close>

fun after_runs :: "tools \<Rightarrow> fetcher \<Rightarrow> string \<Rightarrow> nat \<Rightarrow> world \<Rightarrow> world" where
  "after_runs t self cart_file 0 w = w"
| "after_runs t self cart_file (Suc j) w =
     after_runs t self cart_file j (snd (run_prefetch t self cart_file w))"










fun lookup :: "entries \<Rightarrow> string list \<Rightarrow> node option" where
  "lookup es [] = None"
| "lookup es (name # p) =
     (case map_of es name of
        None \<Rightarrow> None
      | Some x \<Rightarrow> (if p = [] then Some x else (case x of Dir sub \<Rightarrow> lookup sub p | File c \<Rightarrow> None)))"

section \<open>Concrete runs\<close>

text \<open>
  A fetcher, a world with nothing in it but the directory the process is in, and external programs
  to run the code against. The paths used need no normalising.
\<close>

definition posix_abspath :: "string \<Rightarrow> string \<Rightarrow> string" where
  "posix_abspath current path = (if startswith path ''/'' then path else path_join current path)"

definition fx :: fetcher where
  "fx = \<lparr>ngc_file = ''/keys/prj.ngc'', prefetch = ''/opt/sra/prefetch'', output_dir = ''/data/out''\<rparr>"

definition w_init :: world where
  "w_init = \<lparr>temp = None, out = None, exists_dir = (\<lambda>p. p = ''/home/u''),
             manifests = (\<lambda>d p. None), cwd = ''/home/u'', calls = []\<rparr>"

text \<open>A Downloader that leaves one file in the temporary directory from its second run on.\<close>

definition late_tools :: tools where
  "late_tools =
     \<lparr>shell = (\<lambda>cmd w. (0, if calls w = [] then w else w\<lparr>temp := Some [(''a.dat'', File ''x'')]\<rparr>)),
      abspath = posix_abspath,
      mkdtemp = (\<lambda>w. ''/tmp/tmpk3'')\<rparr>"

text \<open>External programs that do nothing and exit with status 0.\<close>

definition idle_tools :: tools where
  "idle_tools =
     \<lparr>shell = (\<lambda>cmd w. (0, w)),
      abspath = posix_abspath,
      mkdtemp = (\<lambda>w. ''/tmp/tmpk3'')\<rparr>"

text \<open>
  The world that a call with one attempt, which returns \<^verbatim>\<open>False\<close>, leaves behind from
  \<open>w_init\<close>: the process is in the temporary directory, and the directory is gone.
\<close>

definition w_left :: world where
  "w_left = w_init\<lparr>exists_dir := (exists_dir w_init)(''/tmp/tmpk3'' := False),
                     cwd := ''/tmp/tmpk3'',
                     calls := [(Downloader, ''/opt/sra/prefetch --ngc /keys/prj.ngc --order kart --cart /home/u/cart.krt --max-size 500000000 --output-directory /data/out'')]\<rparr>"

text \<open>A temporary directory with three files in it.\<close>

definition w_three :: world where
  "w_three = w_init\<lparr>temp := Some [(''a'', File ''1''), (''b'', File ''2''), (''c'', File ''3'')]\<rparr>"

text \<open>A Downloader that fetches an archive and a text file, and a tar that exits with status 2.\<close>

definition failing_tar_tools :: tools where
  "failing_tar_tools =
     \<lparr>shell = (\<lambda>cmd w. if startswith cmd ''tar '' then (2, w)
                        else (0, w\<lparr>temp := Some [(''a.tar'', File ''x''), (''b.txt'', File ''y'')]\<rparr>)),
      abspath = posix_abspath,
      mkdtemp = (\<lambda>w. ''/tmp/tmpk3'')\<rparr>"

text \<open>
  Manifests at \<^verbatim>\<open>/data/m.csv\<close>: one with the column \<^verbatim>\<open>File Name\<close>, a blank line and a
  repeated row; one whose header lacks the column; one that is that header alone.
\<close>

definition with_manifest :: "string list list \<Rightarrow> world \<Rightarrow> world" where
  "with_manifest rows w = w\<lparr>manifests := (\<lambda>d p. if p = ''/data/m.csv'' then Some rows else None)\<rparr>"

definition m_abc :: "string list list" where
  "m_abc = [[''Size'', ''File Name''], [''1'', ''c''], [], [''2'', ''a''], [''3'', ''b''], [''2'', ''a'']]"

definition m_nocol :: "string list list" where
  "m_nocol = [[''Name'', ''Size''], [''a.dat'', ''1'']]"

definition m_header_only :: "string list list" where
  "m_header_only = [[''Name'', ''Size'']]"

text \<open>
  A manifest with a row that does not reach the column, a manifest with the one name \<open>a\<close>, a
  manifest that opens in \<^verbatim>\<open>/home/u\<close> by its relative path \<^verbatim>\<open>m.csv\<close>, and the world of a
  check in a temporary directory that holds the one file \<open>a\<close>.
\<close>

definition m_short :: "string list list" where
  "m_short = [[''Size'', ''File Name''], [''1'', ''a''], [''2'']]"

definition m_a :: "string list list" where
  "m_a = [[''Size'', ''File Name''], [''1'', ''a'']]"

definition with_relative_manifest :: "string list list \<Rightarrow> world \<Rightarrow> world" where
  "with_relative_manifest rows w =
     w\<lparr>manifests := (\<lambda>d p. if d = ''/home/u'' \<and> p = ''m.csv'' then Some rows else None)\<rparr>"

definition w_one :: world where
  "w_one = w_init\<lparr>temp := Some [(''a'', File ''1'')],
                    exists_dir := (exists_dir w_init)(''/tmp/tmpk3'' := True),
                    cwd := ''/tmp/tmpk3''\<rparr>"

text \<open>Temporary directories with two and with four files, and one whose names differ in case.\<close>

definition w_two :: world where
  "w_two = w_init\<lparr>temp := Some [(''a'', File ''1''), (''b'', File ''2'')]\<rparr>"

definition w_four :: world where
  "w_four = w_init\<lparr>temp := Some [(''a'', File ''1''), (''b'', File ''2''), (''c'', File ''3''),
                                  (''d'', File ''4'')]\<rparr>"

definition w_upper :: world where
  "w_upper = w_init\<lparr>temp := Some [(''A'', File ''1''), (''b'', File ''2''), (''c'', File ''3'')]\<rparr>"















section \<open>Properties\<close>

subsection \<open>Before the loop\<close>

text \<open>
  A call made in a current directory that exists reaches the loop, with the cart resolved against
  that directory; a call made in a directory that is gone ends at line 42 or 43.
\<close>

lemma download_files_loop:
  assumes "exists_dir w (cwd w)"
  shows "download_files fuel t self cart manifest n_files n do_untar w =
     (case attempts fuel t self (abspath t (cwd w) cart) (mkdtemp t w) manifest n_files n 1 (start t w) of
        None \<Rightarrow> None
      | Some (Inl e, w1) \<Rightarrow> Some (Inl e, cleanup (mkdtemp t w) w1)
      | Some (Inr False, w1) \<Rightarrow> Some (Inr False, cleanup (mkdtemp t w) w1)
      | Some (Inr True, w1) \<Rightarrow>
          (case finish t self (mkdtemp t w) (cwd w) do_untar w1 of
             (r, w2) \<Rightarrow> Some (r, cleanup (mkdtemp t w) w2)))"
  using assms by (simp add: download_files_def os_path_abspath_def os_getcwd_def Let_def)

lemma download_files_gone:
  assumes "\<not> exists_dir w (cwd w)"
  shows "download_files fuel t self cart manifest n_files n do_untar w
           = Some (Inl (FileNotFoundError []), w)"
  using assms by (simp add: download_files_def os_path_abspath_def os_getcwd_def)

lemma posix_abspath_cart [simp]: "posix_abspath ''/home/u'' ''cart.krt'' = ''/home/u/cart.krt''"
  by (simp add: posix_abspath_def path_join_def startswith_def endswith_def)

lemma w_init_here: "exists_dir w_init (cwd w_init)"
  by (simp add: w_init_def)

lemma w_left_gone: "\<not> exists_dir w_left (cwd w_left)"
  by (simp add: w_left_def)

lemma runs_cleanup: "downloader_runs (cleanup td x) = downloader_runs x"
  by (simp add: cleanup_def downloader_runs_def)

lemma runs_start: "downloader_runs (start t w) = downloader_runs w"
  by (simp add: start_def downloader_runs_def)

subsection \<open>The attempt loop\<close>

lemma calls_run_prefetch:
  "calls (snd (run_prefetch t self cf w)) = calls w @ [(Downloader, prefetch_cmd self cf)]"
  by (simp add: run_prefetch_def subprocess_call_def split: prod.splits)

lemma calls_after_runs:
  "calls (after_runs t self cf j w) = calls w @ replicate j (Downloader, prefetch_cmd self cf)"
  by (induction j arbitrary: w) (simp_all add: calls_run_prefetch replicate_append_same)

text \<open>From attempt \<open>i \<le> n\<close> on, checks that all fail lead to line 54 at attempt \<open>n\<close>.\<close>

lemma attempts_exhaust:
  assumes "i \<le> n"
    and "\<And>j. 1 \<le> j \<Longrightarrow> j \<le> nat (n - i) \<Longrightarrow> verify (after_runs t self cf j w) td m nf = Inr False"
    and "nat (n - i) < fuel"
  shows "attempts fuel t self cf td m nf n i w
           = Some (Inr False, after_runs t self cf (Suc (nat (n - i))) w)"
  using assms
proof (induction fuel arbitrary: i w)
  case 0
  then show ?case by simp
next
  case (Suc fuel)
  let ?w1 = "snd (run_prefetch t self cf w)"
  show ?case
  proof (cases "i = n")
    case True
    then show ?thesis by (simp add: case_prod_beta)
  next
    case False
    with Suc.prems(1) have lt: "i < n" by simp
    then have k: "nat (n - i) = Suc (nat (n - (i + 1)))" by simp
    have v1: "verify ?w1 td m nf = Inr False"
      using Suc.prems(2)[of 1] lt by simp
    have ih: "attempts fuel t self cf td m nf n (i + 1) ?w1
              = Some (Inr False, after_runs t self cf (Suc (nat (n - (i + 1)))) ?w1)"
    proof (rule Suc.IH)
      show "i + 1 \<le> n" using lt by simp
      show "nat (n - (i + 1)) < fuel" using Suc.prems(3) k by simp
      fix j :: nat assume "1 \<le> j" "j \<le> nat (n - (i + 1))"
      then show "verify (after_runs t self cf j ?w1) td m nf = Inr False"
        using Suc.prems(2)[of "Suc j"] k by simp
    qed
    show ?thesis using False v1 ih k by (simp add: case_prod_beta)
  qed
qed

text \<open>
  Claim C1, as the code has it. Let the call be made in a current directory that exists, let
  \<^verbatim>\<open>n_retries\<close> be \<open>n \<ge> 1\<close> (there is a final attempt, the \<open>n\<close>-th) and let the check report
  failure after each of the attempts \<open>1\<close> to \<open>n - 1\<close>. Then \<^verbatim>\<open>download_files\<close> returns
  \<^verbatim>\<open>False\<close>, and the commands it ran are exactly \<open>n\<close> invocations of the Downloader.
  Nothing is assumed about the directory after the \<open>n\<close>-th run: it is never checked, so the result
  is the same when its contents would pass.
\<close>

theorem final_attempt_unchecked:
  assumes "exists_dir w (cwd w)" and "1 \<le> n"
    and "\<And>j. 1 \<le> j \<Longrightarrow> j < nat n \<Longrightarrow>
           verify (after_runs t self (abspath t (cwd w) cart) j (start t w)) (mkdtemp t w)
             manifest n_files = Inr False"
    and "nat n \<le> fuel"
  shows "download_files fuel t self cart manifest n_files n do_untar w
           = Some (Inr False,
                   cleanup (mkdtemp t w)
                     (after_runs t self (abspath t (cwd w) cart) (nat n) (start t w)))
         \<and> calls (cleanup (mkdtemp t w)
                    (after_runs t self (abspath t (cwd w) cart) (nat n) (start t w)))
           = calls w @ replicate (nat n) (Downloader, prefetch_cmd self (abspath t (cwd w) cart))"
proof -
  let ?cf = "abspath t (cwd w) cart"
  have s: "Suc (nat (n - 1)) = nat n" using assms(2) by simp
  have "attempts fuel t self ?cf (mkdtemp t w) manifest n_files n 1 (start t w)
          = Some (Inr False, after_runs t self ?cf (Suc (nat (n - 1))) (start t w))"
  proof (rule attempts_exhaust)
    show "1 \<le> n" by (rule assms(2))
    show "nat (n - 1) < fuel" using assms(2,4) by simp
    fix j :: nat assume "1 \<le> j" "j \<le> nat (n - 1)"
    then show "verify (after_runs t self ?cf j (start t w)) (mkdtemp t w) manifest n_files = Inr False"
      using assms(2) by (intro assms(3)) simp_all
  qed
  then have "download_files fuel t self cart manifest n_files n do_untar w
           = Some (Inr False, cleanup (mkdtemp t w) (after_runs t self ?cf (nat n) (start t w)))"
    by (simp add: download_files_loop [OF assms(1)] s)
  moreover have "calls (cleanup (mkdtemp t w) (after_runs t self ?cf (nat n) (start t w)))
           = calls w @ replicate (nat n) (Downloader, prefetch_cmd self ?cf)"
    by (simp add: cleanup_def calls_after_runs start_def)
  ultimately show ?thesis by simp
qed

lemma late_first_run:
  "verify (after_runs late_tools fx (abspath late_tools (cwd w_init) ''cart.krt'') 1
             (start late_tools w_init)) (mkdtemp late_tools w_init) None (Some 1) = Inr False"
  by (simp add: late_tools_def fx_def w_init_def start_def run_prefetch_def subprocess_call_def
        verify_def truthy_str_def truthy_int_def check_prefetch_against_n_files_def listdir_def)

lemma late_second_run:
  "verify (after_runs late_tools fx (abspath late_tools (cwd w_init) ''cart.krt'') 2
             (start late_tools w_init)) (mkdtemp late_tools w_init) None (Some 1) = Inr True"
  by (simp add: eval_nat_numeral late_tools_def fx_def w_init_def start_def run_prefetch_def
        subprocess_call_def verify_def truthy_str_def truthy_int_def
        check_prefetch_against_n_files_def listdir_def)

text \<open>
  With two attempts allowed and one file expected, the directory is empty after the first run and
  holds the one file after the second: the second run is not checked and the call fails.
\<close>

theorem final_attempt_unchecked_witness:
  "exists_dir w_init (cwd w_init) \<and> (1::int) \<le> 2
   \<and> verify (after_runs late_tools fx (abspath late_tools (cwd w_init) ''cart.krt'') 1
              (start late_tools w_init)) (mkdtemp late_tools w_init) None (Some 1) = Inr False
   \<and> verify (after_runs late_tools fx (abspath late_tools (cwd w_init) ''cart.krt'') 2
              (start late_tools w_init)) (mkdtemp late_tools w_init) None (Some 1) = Inr True
   \<and> map_option fst (download_files 2 late_tools fx ''cart.krt'' None (Some 1) 2 False w_init)
       = Some (Inr False)
   \<and> map_option (length \<circ> calls \<circ> snd)
        (download_files 2 late_tools fx ''cart.krt'' None (Some 1) 2 False w_init) = Some 2"
proof -
  have h: "\<And>j. 1 \<le> j \<Longrightarrow> j < nat 2 \<Longrightarrow>
      verify (after_runs late_tools fx (abspath late_tools (cwd w_init) ''cart.krt'') j
                (start late_tools w_init)) (mkdtemp late_tools w_init) None (Some 1) = Inr False"
  proof -
    fix j :: nat assume "1 \<le> j" "j < nat 2"
    then have "j = 1" by simp
    then show "verify (after_runs late_tools fx (abspath late_tools (cwd w_init) ''cart.krt'') j
                (start late_tools w_init)) (mkdtemp late_tools w_init) None (Some 1) = Inr False"
      using late_first_run by simp
  qed
  have c: "calls w_init = []" by (simp add: w_init_def)
  show ?thesis
    using final_attempt_unchecked [where w = w_init and n = 2 and t = late_tools and self = fx
            and cart = "''cart.krt''" and manifest = None and n_files = "Some 1" and fuel = 2
            and do_untar = False, OF w_init_here _ h]
          late_first_run late_second_run c w_init_here
    by simp
qed

text \<open>
  Claim C1 as stated fails for a call made where the current directory is gone, which is where a
  call that returned \<^verbatim>\<open>False\<close> leaves the process: with one attempt allowed, the first call
  runs the Downloader once and returns \<^verbatim>\<open>False\<close>; the same call made again raises
  \<^verbatim>\<open>FileNotFoundError\<close> and runs nothing. It fails also for \<^verbatim>\<open>n_retries = 0\<close>, where no
  attempt is the final one: with nothing to check the Downloader runs once and the call returns
  \<^verbatim>\<open>True\<close>.
\<close>

theorem final_attempt_unchecked_counterexample:
  "download_files 1 idle_tools fx ''cart.krt'' None None 1 False w_init = Some (Inr False, w_left)
   \<and> downloader_runs w_left = 1
   \<and> exists_dir w_left (cwd w_left) = False
   \<and> download_files 1 idle_tools fx ''cart.krt'' None None 1 False w_left
       = Some (Inl (FileNotFoundError []), w_left)
   \<and> map_option fst (download_files 1 idle_tools fx ''cart.krt'' None None 0 False w_init)
       = Some (Inr True)
   \<and> map_option (length \<circ> calls \<circ> snd)
        (download_files 1 idle_tools fx ''cart.krt'' None None 0 False w_init) = Some 1"
proof -
  have a: "download_files 1 idle_tools fx ''cart.krt'' None None 1 False w_init
             = Some (Inr False, w_left)"
    by (simp add: download_files_def os_path_abspath_def os_getcwd_def startswith_def
          idle_tools_def fx_def w_init_def w_left_def start_def run_prefetch_def
          subprocess_call_def prefetch_cmd_def cleanup_def Let_def)
  have b: "downloader_runs w_left = 1" by (simp add: w_left_def downloader_runs_def)
  have c: "exists_dir w_left (cwd w_left) = False" by (simp add: w_left_def)
  have d: "map_option fst (download_files 1 idle_tools fx ''cart.krt'' None None 0 False w_init)
             = Some (Inr True)"
    "map_option (length \<circ> calls \<circ> snd)
        (download_files 1 idle_tools fx ''cart.krt'' None None 0 False w_init) = Some 1"
    by (simp_all add: download_files_def os_path_abspath_def os_getcwd_def os_chdir_def
          startswith_def idle_tools_def fx_def w_init_def start_def run_prefetch_def
          subprocess_call_def verify_def truthy_str_def truthy_int_def finish_def copytree_def
          cleanup_def Let_def)
  from a b c d show ?thesis by (simp add: download_files_gone [OF w_left_gone])
qed

text \<open>A check that passes after the \<open>k\<close>-th run, none of the \<open>k\<close> attempts being the final one.\<close>

lemma attempts_verified:
  assumes "1 \<le> k"
    and "\<And>j. 1 \<le> j \<Longrightarrow> j < k \<Longrightarrow> verify (after_runs t self cf j w) td m nf = Inr False"
    and "verify (after_runs t self cf k w) td m nf = Inr True"
    and "\<And>j. j < k \<Longrightarrow> i + int j \<noteq> n"
    and "k \<le> fuel"
  shows "attempts fuel t self cf td m nf n i w = Some (Inr True, after_runs t self cf k w)"
  using assms
proof (induction fuel arbitrary: i w k)
  case 0
  then show ?case by simp
next
  case (Suc fuel)
  let ?w1 = "snd (run_prefetch t self cf w)"
  have ne: "i \<noteq> n" using Suc.prems(4)[of 0] Suc.prems(1) by simp
  show ?case
  proof (cases "k = 1")
    case True
    then have "verify ?w1 td m nf = Inr True" using Suc.prems(3) by simp
    then show ?thesis using ne True by (simp add: case_prod_beta)
  next
    case False
    then obtain k' where k: "k = Suc k'" "1 \<le> k'" using Suc.prems(1) by (cases k) auto
    have v1: "verify ?w1 td m nf = Inr False" using Suc.prems(2)[of 1] k by simp
    have ih: "attempts fuel t self cf td m nf n (i + 1) ?w1
                = Some (Inr True, after_runs t self cf k' ?w1)"
    proof (rule Suc.IH)
      show "1 \<le> k'" by (rule k(2))
      show "verify (after_runs t self cf k' ?w1) td m nf = Inr True" using Suc.prems(3) k by simp
      show "k' \<le> fuel" using Suc.prems(5) k by simp
    next
      fix j :: nat assume "1 \<le> j" "j < k'"
      then show "verify (after_runs t self cf j ?w1) td m nf = Inr False"
        using Suc.prems(2)[of "Suc j"] k by simp
    next
      fix j :: nat assume "j < k'"
      then show "i + 1 + int j \<noteq> n" using Suc.prems(4)[of "Suc j"] k by simp
    qed
    show ?thesis using ne v1 ih k by (simp add: case_prod_beta)
  qed
qed

text \<open>Past \<^verbatim>\<open>n_retries\<close> the test of line 52 is never true again: failing checks keep the loop going.\<close>

lemma attempts_endless:
  assumes "n < i"
    and "\<And>j. 1 \<le> j \<Longrightarrow> verify (after_runs t self cf j w) td m nf = Inr False"
  shows "attempts fuel t self cf td m nf n i w = None"
  using assms
proof (induction fuel arbitrary: i w)
  case 0
  then show ?case by simp
next
  case (Suc fuel)
  let ?w1 = "snd (run_prefetch t self cf w)"
  have v1: "verify ?w1 td m nf = Inr False" using Suc.prems(2)[of 1] by simp
  have ih: "attempts fuel t self cf td m nf n (i + 1) ?w1 = None"
  proof (rule Suc.IH)
    show "n < i + 1" using Suc.prems(1) by simp
    fix j :: nat assume "1 \<le> j"
    then show "verify (after_runs t self cf j ?w1) td m nf = Inr False"
      using Suc.prems(2)[of "Suc j"] by simp
  qed
  show ?case using Suc.prems(1) v1 ih by (simp add: case_prod_beta)
qed

lemma idle_temp: "temp w = Some [] \<Longrightarrow> temp (after_runs idle_tools self cf j w) = Some []"
  by (induction j arbitrary: w) (simp_all add: idle_tools_def run_prefetch_def subprocess_call_def)

text \<open>
  Claim C9, at \<^verbatim>\<open>n_retries = 0\<close>. With one file expected and a Downloader that fetches nothing,
  \<^verbatim>\<open>download_files\<close> has not returned after any number of attempts; and with nothing to
  check it runs the Downloader once, which is more than zero times, and returns \<^verbatim>\<open>True\<close>.
\<close>

theorem zero_retries_unbounded:
  "download_files fuel idle_tools fx ''cart.krt'' None (Some 1) 0 False w_init = None
   \<and> map_option (\<lambda>r. (fst r, downloader_runs (snd r)))
        (download_files 1 idle_tools fx ''cart.krt'' None None 0 False w_init) = Some (Inr True, 1)"
proof -
  let ?cf = "abspath idle_tools (cwd w_init) ''cart.krt''"
  have "attempts fuel idle_tools fx ?cf (mkdtemp idle_tools w_init) None (Some 1) 0 1
          (start idle_tools w_init) = None"
  proof (rule attempts_endless)
    show "(0::int) < 1" by simp
    fix j :: nat
    have "temp (after_runs idle_tools fx ?cf j (start idle_tools w_init)) = Some []"
      by (rule idle_temp) (simp add: start_def)
    then show "verify (after_runs idle_tools fx ?cf j (start idle_tools w_init))
        (mkdtemp idle_tools w_init) None (Some 1) = Inr False"
      by (simp add: verify_def truthy_str_def truthy_int_def check_prefetch_against_n_files_def
            listdir_def)
  qed
  then have a: "download_files fuel idle_tools fx ''cart.krt'' None (Some 1) 0 False w_init = None"
    by (simp add: download_files_loop [OF w_init_here])
  have b: "map_option (\<lambda>r. (fst r, downloader_runs (snd r)))
        (download_files 1 idle_tools fx ''cart.krt'' None None 0 False w_init) = Some (Inr True, 1)"
    by (simp add: download_files_def os_path_abspath_def os_getcwd_def os_chdir_def startswith_def
          idle_tools_def fx_def w_init_def start_def run_prefetch_def
          subprocess_call_def verify_def truthy_str_def truthy_int_def finish_def copytree_def
          cleanup_def downloader_runs_def Let_def)
  from a b show ?thesis by simp
qed

subsection \<open>The command line of the Downloader\<close>

text \<open>
  Claim C2, on a run with one attempt. The temporary directory is \<^verbatim>\<open>/tmp/tmpk3\<close>; the one command
  run carries the credential file, the order \<^verbatim>\<open>kart\<close>, the cart and the size limit, and names
  \<^verbatim>\<open>/data/out\<close>, which is \<^verbatim>\<open>self.output_dir\<close>, as its output directory.
\<close>

theorem downloader_gets_output_dir:
  "mkdtemp idle_tools w_init = ''/tmp/tmpk3''
   \<and> output_dir fx = ''/data/out''
   \<and> map_option (calls \<circ> snd) (download_files 1 idle_tools fx ''cart.krt'' None None 1 False w_init)
     = Some [(Downloader, ''/opt/sra/prefetch --ngc /keys/prj.ngc --order kart --cart /home/u/cart.krt --max-size 500000000 --output-directory /data/out'')]"
  by (simp add: download_files_def os_path_abspath_def os_getcwd_def startswith_def Let_def
        idle_tools_def fx_def w_init_def start_def run_prefetch_def
        subprocess_call_def prefetch_cmd_def cleanup_def)

subsection \<open>The checks\<close>

text \<open>
  Claim C5. With no manifest and an expected count \<open>n > 0\<close>, the check of a directory with
  entries \<open>es\<close> succeeds exactly when the number of entries is \<open>n\<close>.
\<close>

theorem count_check:
  assumes "0 < n" and "temp w = Some es"
  shows "verify w temp_dir None (Some n) = Inr (int (length es) = n)"
  using assms
  by (simp add: verify_def truthy_str_def truthy_int_def check_prefetch_against_n_files_def
        listdir_def)

text \<open>Three entries pass for the count 3 and fail for the counts 2 and 4.\<close>

theorem count_check_witness:
  "(0::int) < 3 \<and> verify w_three ''/tmp/tmpk3'' None (Some 3) = Inr True
   \<and> verify w_three ''/tmp/tmpk3'' None (Some 2) = Inr False
   \<and> verify w_three ''/tmp/tmpk3'' None (Some 4) = Inr False"
  using count_check [of 3 w_three "[(''a'', File ''1''), (''b'', File ''2''), (''c'', File ''3'')]" "''/tmp/tmpk3''"]
        count_check [of 2 w_three "[(''a'', File ''1''), (''b'', File ''2''), (''c'', File ''3'')]" "''/tmp/tmpk3''"]
        count_check [of 4 w_three "[(''a'', File ''1''), (''b'', File ''2''), (''c'', File ''3'')]" "''/tmp/tmpk3''"]
  by (simp add: w_three_def w_init_def)

lemma runs_after_runs:
  "downloader_runs (after_runs t self cf j w) = downloader_runs w + j"
  by (simp add: downloader_runs_def calls_after_runs)

lemma calls_os_mkdir: "os_mkdir d name w = Inr w1 \<Longrightarrow> calls w1 = calls w"
  by (auto simp: os_mkdir_def split: option.splits if_splits)

lemma calls_os_remove: "os_remove d f w = Inr w1 \<Longrightarrow> calls w1 = calls w"
  by (auto simp: os_remove_def split: option.splits node.splits)

lemma runs_extractor:
  "downloader_runs (snd (subprocess_call t Extractor cmd w)) = downloader_runs w"
  by (simp add: subprocess_call_def downloader_runs_def split: prod.splits)

lemma runs_untar_loop:
  "downloader_runs (snd (untar_loop t d fs w)) = downloader_runs w"
proof (induction fs arbitrary: w)
  case Nil
  then show ?case by simp
next
  case (Cons f fs)
  show ?case
  proof (cases "os_mkdir d (split_0 ''.tar'' f) w")
    case (Inl e)
    then show ?thesis by simp
  next
    case (Inr w1)
    let ?c = "subprocess_call t Extractor (tar_cmd f (path_join d (split_0 ''.tar'' f))) w1"
    have r1: "downloader_runs w1 = downloader_runs w"
      using calls_os_mkdir[OF Inr] by (simp add: downloader_runs_def)
    have r2: "downloader_runs (snd ?c) = downloader_runs w"
      using runs_extractor r1 by simp
    show ?thesis
    proof (cases "fst ?c \<noteq> 0")
      case True
      then show ?thesis using Inr r2 by (simp add: case_prod_beta)
    next
      case False
      show ?thesis
      proof (cases "os_remove d f (snd ?c)")
        case (Inl e)
        then show ?thesis using Inr False r2 by (simp add: case_prod_beta)
      next
        case rm: (Inr w3)
        have "downloader_runs w3 = downloader_runs w"
          using calls_os_remove[OF rm] r2 by (simp add: downloader_runs_def)
        then show ?thesis using Inr False rm Cons.IH[of w3] by (simp add: case_prod_beta)
      qed
    qed
  qed
qed

lemma runs_untar: "downloader_runs (snd (untar t d w)) = downloader_runs w"
  by (simp add: untar_def runs_untar_loop split: sum.splits)

lemma calls_copytree: "calls (snd (copytree s d w)) = calls w"
  by (simp add: copytree_def split: option.splits node.splits prod.splits)

lemma runs_finish: "downloader_runs (snd (finish t self td owd u w)) = downloader_runs w"
proof -
  let ?p = "if u then untar t td w else (Inr (), w)"
  have a: "downloader_runs (snd ?p) = downloader_runs w" by (simp add: runs_untar)
  have c: "\<And>x. downloader_runs (snd (copytree td (output_dir self) x)) = downloader_runs x"
    by (simp add: downloader_runs_def calls_copytree)
  have d: "\<And>x y. os_chdir owd x = Inr y \<Longrightarrow> downloader_runs y = downloader_runs x"
    by (auto simp: os_chdir_def downloader_runs_def split: if_splits)
  obtain r w1 where p: "?p = (r, w1)" by (cases ?p) auto
  with a have w1: "downloader_runs w1 = downloader_runs w" by simp
  show ?thesis
  proof (cases r)
    case (Inl e)
    then show ?thesis using p w1 by (simp add: finish_def)
  next
    case ux: (Inr x)
    show ?thesis
    proof (cases "os_chdir owd w1")
      case (Inl e)
      then show ?thesis using p ux w1 by (simp add: finish_def)
    next
      case ch: (Inr w2)
      obtain r3 w3 where ct: "copytree td (output_dir self) w2 = (r3, w3)"
        by (cases "copytree td (output_dir self) w2") auto
      have "downloader_runs w3 = downloader_runs w"
        using c [of w2] d [OF ch] w1 ct by simp
      then show ?thesis using p ux ch ct by (cases r3) (simp_all add: finish_def)
    qed
  qed
qed

lemma finish_not_False: "fst (finish t self td owd u w) \<noteq> Inr False"
  by (simp add: finish_def split: prod.splits sum.splits)

text \<open>
  When the check passes after the \<open>k\<close>-th run and \<open>k\<close> is below \<^verbatim>\<open>n_retries\<close>, lines 63 to 68
  run on the world the \<open>k\<close> runs left, and their outcome is the outcome of the call.
\<close>

lemma download_files_verified:
  assumes "exists_dir w (cwd w)" and "1 \<le> k" and "int k < n"
    and "\<And>j. 1 \<le> j \<Longrightarrow> j < k \<Longrightarrow>
           verify (after_runs t self (abspath t (cwd w) cart) j (start t w)) (mkdtemp t w)
             manifest n_files = Inr False"
    and "verify (after_runs t self (abspath t (cwd w) cart) k (start t w)) (mkdtemp t w)
             manifest n_files = Inr True"
    and "k \<le> fuel"
    and "F = finish t self (mkdtemp t w) (cwd w) do_untar
               (after_runs t self (abspath t (cwd w) cart) k (start t w))"
  shows "download_files fuel t self cart manifest n_files n do_untar w
           = Some (fst F, cleanup (mkdtemp t w) (snd F))
         \<and> downloader_runs (cleanup (mkdtemp t w) (snd F)) = downloader_runs w + k
         \<and> (fst F = Inr True \<or> (\<exists>e. fst F = Inl e))"
proof -
  let ?cf = "abspath t (cwd w) cart"
  let ?wk = "after_runs t self ?cf k (start t w)"
  have "attempts fuel t self ?cf (mkdtemp t w) manifest n_files n 1 (start t w) = Some (Inr True, ?wk)"
  proof (rule attempts_verified)
    show "1 \<le> k" by (rule assms(2))
    show "k \<le> fuel" by (rule assms(6))
    show "verify ?wk (mkdtemp t w) manifest n_files = Inr True" by (rule assms(5))
  next
    fix j :: nat assume "1 \<le> j" "j < k"
    then show "verify (after_runs t self ?cf j (start t w)) (mkdtemp t w) manifest n_files = Inr False"
      by (rule assms(4))
  next
    fix j :: nat assume "j < k"
    then show "1 + int j \<noteq> n" using assms(3) by simp
  qed
  then have a: "download_files fuel t self cart manifest n_files n do_untar w
                  = Some (fst F, cleanup (mkdtemp t w) (snd F))"
    by (simp add: download_files_loop [OF assms(1)] assms(7) case_prod_beta)
  have "downloader_runs (snd F) = downloader_runs ?wk" by (simp add: assms(7) runs_finish)
  then have b: "downloader_runs (cleanup (mkdtemp t w) (snd F)) = downloader_runs w + k"
    by (simp add: runs_cleanup runs_after_runs runs_start)
  have c: "fst F = Inr True \<or> (\<exists>e. fst F = Inl e)"
    using finish_not_False[of t self "mkdtemp t w" "cwd w" do_untar ?wk]
    by (cases "fst F") (auto simp: assms(7))
  from a b c show ?thesis by simp
qed

text \<open>
  Claim C3, as the code has it. Let the call be made in a current directory that exists, so that
  the loop is reached, let \<^verbatim>\<open>n_retries\<close> be \<open>n > 1\<close>, and let the check fail after the attempts
  before the \<open>k\<close>-th and pass after the \<open>k\<close>-th, with \<open>k < n\<close>. Then the Downloader is invoked
  exactly \<open>k\<close> times, and the call ends as lines 63 to 68 end on the directory of the \<open>k\<close>-th
  run: it returns \<^verbatim>\<open>True\<close>, or the exception that extraction, the return to the original
  directory or relocation raised leaves it. It does not return \<^verbatim>\<open>False\<close>.
\<close>

theorem verified_attempt_ends_loop:
  assumes "exists_dir w (cwd w)" and "1 < n" and "1 \<le> k" and "int k < n"
    and "\<And>j. 1 \<le> j \<Longrightarrow> j < k \<Longrightarrow>
           verify (after_runs t self (abspath t (cwd w) cart) j (start t w)) (mkdtemp t w)
             manifest n_files = Inr False"
    and "verify (after_runs t self (abspath t (cwd w) cart) k (start t w)) (mkdtemp t w)
             manifest n_files = Inr True"
    and "k \<le> fuel"
  shows "let F = finish t self (mkdtemp t w) (cwd w) do_untar
                   (after_runs t self (abspath t (cwd w) cart) k (start t w))
         in download_files fuel t self cart manifest n_files n do_untar w
              = Some (fst F, cleanup (mkdtemp t w) (snd F))
            \<and> downloader_runs (cleanup (mkdtemp t w) (snd F)) = downloader_runs w + k
            \<and> (fst F = Inr True \<or> (\<exists>e. fst F = Inl e))"
  unfolding Let_def
  by (rule download_files_verified [OF assms(1) assms(3) assms(4) assms(5) assms(6) assms(7) refl])

text \<open>
  Three attempts allowed, one file expected, and a Downloader that delivers it on its second run:
  two invocations, and \<^verbatim>\<open>True\<close>.
\<close>

theorem verified_attempt_ends_loop_witness:
  "exists_dir w_init (cwd w_init) \<and> (1::int) < 3 \<and> (1::nat) \<le> 2 \<and> int 2 < 3
   \<and> verify (after_runs late_tools fx (abspath late_tools (cwd w_init) ''cart.krt'') 1
              (start late_tools w_init)) (mkdtemp late_tools w_init) None (Some 1) = Inr False
   \<and> verify (after_runs late_tools fx (abspath late_tools (cwd w_init) ''cart.krt'') 2
              (start late_tools w_init)) (mkdtemp late_tools w_init) None (Some 1) = Inr True
   \<and> map_option (\<lambda>r. (fst r, downloader_runs (snd r)))
        (download_files 2 late_tools fx ''cart.krt'' None (Some 1) 3 False w_init)
       = Some (Inr True, 2)"
proof -
  have h: "\<And>j. 1 \<le> j \<Longrightarrow> j < 2 \<Longrightarrow>
      verify (after_runs late_tools fx (abspath late_tools (cwd w_init) ''cart.krt'') j
                (start late_tools w_init)) (mkdtemp late_tools w_init) None (Some 1) = Inr False"
  proof -
    fix j :: nat assume "1 \<le> j" "j < 2"
    then have "j = 1" by simp
    then show "verify (after_runs late_tools fx (abspath late_tools (cwd w_init) ''cart.krt'') j
                (start late_tools w_init)) (mkdtemp late_tools w_init) None (Some 1) = Inr False"
      using late_first_run by simp
  qed
  have f: "fst (finish late_tools fx (mkdtemp late_tools w_init) (cwd w_init) False
             (after_runs late_tools fx (abspath late_tools (cwd w_init) ''cart.krt'') 2
                (start late_tools w_init))) = Inr True"
    by (simp add: eval_nat_numeral late_tools_def fx_def w_init_def start_def run_prefetch_def
          subprocess_call_def finish_def os_chdir_def copytree_def move_file_def)
  have r: "downloader_runs w_init = 0" by (simp add: downloader_runs_def w_init_def)
  show ?thesis
    using verified_attempt_ends_loop [where w = w_init and n = 3 and k = 2 and t = late_tools
            and self = fx and cart = "''cart.krt''" and manifest = None and n_files = "Some 1"
            and fuel = 2 and do_untar = False, OF w_init_here _ _ _ h late_second_run]
          late_first_run late_second_run f r w_init_here
    by (simp add: Let_def)
qed

text \<open>
  Claim C3 as stated fails where extraction is asked for and tar fails: the check (there is none)
  passes after the first of three attempts, and the call ends with \<^verbatim>\<open>RuntimeError\<close>.
\<close>

theorem verified_attempt_ends_loop_counterexample:
  "(1::int) < 3
   \<and> verify (after_runs failing_tar_tools fx (abspath failing_tar_tools (cwd w_init) ''cart.krt'') 1
              (start failing_tar_tools w_init)) (mkdtemp failing_tar_tools w_init) None None = Inr True
   \<and> map_option fst (download_files 3 failing_tar_tools fx ''cart.krt'' None None 3 True w_init)
       = Some (Inl (RuntimeError ''Failed to untar a.tar''))
   \<and> map_option fst (download_files 3 failing_tar_tools fx ''cart.krt'' None None 3 True w_init)
       \<noteq> Some (Inr True)"
  by (simp add: eval_nat_numeral download_files_def os_path_abspath_def os_getcwd_def
        failing_tar_tools_def fx_def w_init_def
        start_def run_prefetch_def subprocess_call_def verify_def truthy_str_def truthy_int_def
        finish_def untar_def listdir_def is_tar_def endswith_def startswith_def os_mkdir_def
        tar_cmd_def path_join_def prefetch_cmd_def cleanup_def Let_def)

text \<open>
  Claim C10, as the code has it. With no manifest and the expected count \<open>0\<close> the check accepts
  every directory; so with \<^verbatim>\<open>n_retries > 1\<close>, in a call made in a current directory that
  exists, the Downloader is invoked once, and the call ends as lines 63 to 68 end on the directory
  of that run: it returns \<^verbatim>\<open>True\<close>, or the exception that extraction, the return to the original
  directory or relocation raised leaves it.
\<close>

theorem zero_count_accepts_anything:
  assumes "exists_dir w (cwd w)" and "1 < n" and "1 \<le> fuel"
  shows "verify w' temp_dir None (Some 0) = Inr True
         \<and> (let F = finish t self (mkdtemp t w) (cwd w) do_untar
                      (after_runs t self (abspath t (cwd w) cart) 1 (start t w))
            in download_files fuel t self cart None (Some 0) n do_untar w
                 = Some (fst F, cleanup (mkdtemp t w) (snd F))
               \<and> downloader_runs (cleanup (mkdtemp t w) (snd F)) = downloader_runs w + 1
               \<and> (fst F = Inr True \<or> (\<exists>e. fst F = Inl e)))"
proof -
  have v: "\<And>x. verify x (mkdtemp t w) None (Some 0) = Inr True"
    by (simp add: verify_def truthy_str_def truthy_int_def)
  have "verify w' temp_dir None (Some 0) = Inr True"
    by (simp add: verify_def truthy_str_def truthy_int_def)
  moreover have "let F = finish t self (mkdtemp t w) (cwd w) do_untar
                      (after_runs t self (abspath t (cwd w) cart) 1 (start t w))
            in download_files fuel t self cart None (Some 0) n do_untar w
                 = Some (fst F, cleanup (mkdtemp t w) (snd F))
               \<and> downloader_runs (cleanup (mkdtemp t w) (snd F)) = downloader_runs w + 1
               \<and> (fst F = Inr True \<or> (\<exists>e. fst F = Inl e))"
    unfolding Let_def
  proof (rule download_files_verified [where k = 1, OF assms(1) _ _ _ v _ refl])
    show "(1::nat) \<le> 1" by simp
    show "int 1 < n" using assms(2) by simp
    show "1 \<le> fuel" by (rule assms(3))
  next
    fix j :: nat assume "1 \<le> j" "j < 1"
    then show "verify (after_runs t self (abspath t (cwd w) cart) j (start t w)) (mkdtemp t w)
                 None (Some 0) = Inr False"
      by simp
  qed
  ultimately show ?thesis by simp
qed

text \<open>
  The Downloader leaves two entries, the expected count is \<open>0\<close>: the call returns \<^verbatim>\<open>True\<close> after
  one invocation.
\<close>

theorem zero_count_accepts_anything_witness:
  "exists_dir w_init (cwd w_init) \<and> (1::int) < 2 \<and> (1::nat) \<le> 1
   \<and> map_option length (temp (after_runs failing_tar_tools fx
         (abspath failing_tar_tools (cwd w_init) ''cart.krt'') 1 (start failing_tar_tools w_init)))
       = Some 2
   \<and> map_option (\<lambda>r. (fst r, downloader_runs (snd r)))
        (download_files 1 failing_tar_tools fx ''cart.krt'' None (Some 0) 2 False w_init)
       = Some (Inr True, 1)"
proof -
  have f: "fst (finish failing_tar_tools fx (mkdtemp failing_tar_tools w_init) (cwd w_init) False
             (after_runs failing_tar_tools fx (abspath failing_tar_tools (cwd w_init) ''cart.krt'') 1
                (start failing_tar_tools w_init))) = Inr True"
    by (simp add: failing_tar_tools_def fx_def w_init_def start_def run_prefetch_def
          subprocess_call_def finish_def os_chdir_def copytree_def move_file_def startswith_def
          prefetch_cmd_def)
  have l: "map_option length (temp (after_runs failing_tar_tools fx
         (abspath failing_tar_tools (cwd w_init) ''cart.krt'') 1 (start failing_tar_tools w_init)))
       = Some 2"
    by (simp add: failing_tar_tools_def fx_def w_init_def start_def run_prefetch_def
          subprocess_call_def startswith_def prefetch_cmd_def)
  have r: "downloader_runs w_init = 0" by (simp add: downloader_runs_def w_init_def)
  show ?thesis
    using zero_count_accepts_anything [where n = 2 and fuel = 1 and w' = w_init
            and temp_dir = "''/tmp/tmpk3''" and t = failing_tar_tools and self = fx and w = w_init
            and cart = "''cart.krt''" and do_untar = False, OF w_init_here] f l r w_init_here
    by (simp add: Let_def)
qed

text \<open>
  Claim C10 as stated fails in the same way as C3: count \<open>0\<close>, two attempts allowed, extraction
  asked for and a tar that fails. It fails also for a call made where the current directory is
  gone: \<^verbatim>\<open>FileNotFoundError\<close> is raised and the Downloader is not invoked.
\<close>

theorem zero_count_accepts_anything_counterexample:
  "(1::int) < 2
   \<and> map_option fst (download_files 2 failing_tar_tools fx ''cart.krt'' None (Some 0) 2 True w_init)
       = Some (Inl (RuntimeError ''Failed to untar a.tar''))
   \<and> map_option fst (download_files 2 failing_tar_tools fx ''cart.krt'' None (Some 0) 2 True w_init)
       \<noteq> Some (Inr True)
   \<and> download_files 2 idle_tools fx ''cart.krt'' None (Some 0) 2 False w_left
       = Some (Inl (FileNotFoundError []), w_left)"
proof -
  have "map_option fst (download_files 2 failing_tar_tools fx ''cart.krt'' None (Some 0) 2 True w_init)
       = Some (Inl (RuntimeError ''Failed to untar a.tar''))"
    by (simp add: eval_nat_numeral download_files_def os_path_abspath_def os_getcwd_def
        failing_tar_tools_def fx_def w_init_def
        start_def run_prefetch_def subprocess_call_def verify_def truthy_str_def truthy_int_def
        finish_def untar_def listdir_def is_tar_def endswith_def startswith_def os_mkdir_def
        tar_cmd_def path_join_def prefetch_cmd_def cleanup_def Let_def)
  then show ?thesis by (auto simp: download_files_gone [OF w_left_gone])
qed

subsection \<open>Reading the manifest\<close>

lemma setitem_apply: "setitem d k v k' = (if k' = k then Some v else d k')"
  by (simp add: setitem_def)

lemma fold_cells_other:
  "k \<notin> fst ` set kvs \<Longrightarrow> fold (\<lambda>(k, v) d. setitem d k (Some v)) kvs d k = d k"
  by (induction kvs arbitrary: d) (auto simp: setitem_apply)

lemma fold_restval_other:
  "k \<notin> set ks \<Longrightarrow> fold (\<lambda>k d. setitem d k None) ks d k = d k"
  by (induction ks arbitrary: d) (auto simp: setitem_apply)

lemma fold_cells_last:
  assumes "j < length h" and "j < length r" and "h ! j = k"
    and "\<And>j'. j < j' \<Longrightarrow> j' < length h \<Longrightarrow> h ! j' \<noteq> k"
  shows "fold (\<lambda>(k, v) d. setitem d k (Some v)) (zip h r) d k = Some (Some (r ! j))"
  using assms
proof (induction h arbitrary: r j d)
  case Nil
  then show ?case by simp
next
  case (Cons x h)
  then obtain y r' where r: "r = y # r'" by (cases r) auto
  show ?case
  proof (cases j)
    case 0
    have "k \<notin> set h"
    proof
      assume "k \<in> set h"
      then obtain i where "i < length h" "h ! i = k" by (auto simp: in_set_conv_nth)
      then show False using Cons.prems(4)[of "Suc i"] 0 by simp
    qed
    then have "k \<notin> fst ` set (zip h r')" by (auto dest: set_zip_leftD)
    then have "fold (\<lambda>(k, v) d. setitem d k (Some v)) (zip h r') (setitem d k (Some y)) k
                 = (setitem d k (Some y)) k"
      by (rule fold_cells_other)
    also have "\<dots> = Some (Some y)" by (simp add: setitem_def)
    finally show ?thesis using 0 r Cons.prems(3) by simp
  next
    case (Suc j')
    have "fold (\<lambda>(k, v) d. setitem d k (Some v)) (zip h r') (setitem d x (Some y)) k = Some (Some (r' ! j'))"
    proof (rule Cons.IH)
      show "j' < length h" using Cons.prems(1) Suc by simp
      show "j' < length r'" using Cons.prems(2) Suc r by simp
      show "h ! j' = k" using Cons.prems(3) Suc by simp
      fix i assume "j' < i" "i < length h"
      then show "h ! i \<noteq> k" using Cons.prems(4)[of "Suc i"] Suc by simp
    qed
    then show ?thesis using Suc r by simp
  qed
qed

lemma dict_row_cell:
  assumes "j < length h" and "j < length r" and "h ! j = k"
    and "\<And>j'. j < j' \<Longrightarrow> j' < length h \<Longrightarrow> h ! j' \<noteq> k"
  shows "dict_row h r k = Some (Some (r ! j))"
proof -
  have "k \<notin> set (drop (length r) h)"
  proof
    assume "k \<in> set (drop (length r) h)"
    then obtain i where "i < length h - length r" "drop (length r) h ! i = k"
      by (auto simp: in_set_conv_nth)
    then show False using assms(4)[of "length r + i"] assms(2) by simp
  qed
  then have "fold (\<lambda>k d. setitem d k None) (drop (length r) h)
               (fold (\<lambda>(k, v) d. setitem d k (Some v)) (zip h r) Map.empty) k
             = fold (\<lambda>(k, v) d. setitem d k (Some v)) (zip h r) Map.empty k"
    by (rule fold_restval_other)
  then show ?thesis
    using fold_cells_last[OF assms, of Map.empty] by (simp add: dict_row_def Let_def)
qed

lemma dict_row_missing: "k \<notin> set h \<Longrightarrow> dict_row h r k = None"
proof -
  assume a: "k \<notin> set h"
  then have "k \<notin> fst ` set (zip h r)" by (auto dest: set_zip_leftD)
  moreover have "k \<notin> set (drop (length r) h)" using a by (auto dest: in_set_dropD)
  ultimately show ?thesis
    using fold_restval_other[of k "drop (length r) h"
            "fold (\<lambda>(k, v) d. setitem d k (Some v)) (zip h r) Map.empty"]
          fold_cells_other[of k "zip h r" Map.empty]
    by (simp add: dict_row_def Let_def)
qed

lemma fold_restval_in:
  "k \<in> set ks \<Longrightarrow> fold (\<lambda>k d. setitem d k None) ks d k = Some None"
proof (induction ks arbitrary: d)
  case Nil
  then show ?case by simp
next
  case (Cons x ks)
  show ?case
  proof (cases "k \<in> set ks")
    case True
    then show ?thesis using Cons.IH by simp
  next
    case False
    then have x: "x = k" using Cons.prems by simp
    have "fold (\<lambda>k d. setitem d k None) ks (setitem d k None) k = setitem d k None k"
      using False by (rule fold_restval_other)
    also have "\<dots> = Some None" by (simp add: setitem_def)
    finally show ?thesis using x by simp
  qed
qed

text \<open>A row too short to reach a column of the header has \<^verbatim>\<open>None\<close> there.\<close>

lemma dict_row_short:
  assumes "j < length h" and "length r \<le> j" and "h ! j = k"
  shows "dict_row h r k = Some None"
proof -
  have "drop (length r) h ! (j - length r) = k" using assms by simp
  moreover have "j - length r < length (drop (length r) h)" using assms by simp
  ultimately have "k \<in> set (drop (length r) h)" by (metis nth_mem)
  then have "fold (\<lambda>k d. setitem d k None) (drop (length r) h)
               (fold (\<lambda>(k, v) d. setitem d k (Some v)) (zip h r) Map.empty) k = Some None"
    by (rule fold_restval_in)
  then show ?thesis using assms(1,2) by (simp add: dict_row_def Let_def)
qed

lemma append_file_names_cells:
  assumes "\<And>r. r \<in> set rs \<Longrightarrow> dict_row h r ''File Name'' = Some (cell r)"
  shows "append_file_names (map (dict_row h) rs) files = Inr (files @ map cell rs)"
  using assms by (induction rs arbitrary: files) simp_all

lemma append_file_names_missing:
  assumes "rs \<noteq> []" and "\<And>r. r \<in> set rs \<Longrightarrow> dict_row h r ''File Name'' = None"
  shows "append_file_names (map (dict_row h) rs) files = Inl (KeyError ''File Name'')"
  using assms by (cases rs) simp_all


text \<open>
  Claim C4, as the code has it. Let a manifest be supplied (a path that is not empty) that opens
  at the time of the check, let the directory exist, and let the file have the header \<open>header\<close> with the column
  \<^verbatim>\<open>File Name\<close> at position \<open>j\<close> (the last of that name). Then the check succeeds exactly when
  every non-empty row after the header reaches that column and the set of the entry names of the
  directory is the set of the cells of that column: equal as sets of strings, whatever the order
  or the repetitions on either side, and whatever the expected count. A row that is too short to
  reach the column makes the check fail, whatever the directory holds.
\<close>

theorem manifest_check:
  assumes "m \<noteq> []"
    and "manifests w (cwd w) m = Some (header # rows)"
    and "temp w = Some es"
    and "j < length header" and "header ! j = ''File Name''"
    and "\<And>j'. j < j' \<Longrightarrow> j' < length header \<Longrightarrow> header ! j' \<noteq> ''File Name''"
  shows "verify w temp_dir (Some m) n_files
           = Inr ((\<forall>r \<in> set rows. r \<noteq> [] \<longrightarrow> j < length r)
                  \<and> set (map fst es) = set (map (\<lambda>r. r ! j) (filter (\<lambda>r. r \<noteq> []) rows)))"
proof -
  let ?rs = "filter (\<lambda>r. r \<noteq> []) rows"
  let ?cell = "\<lambda>r. if j < length r then Some (r ! j) else None"
  have cell: "\<And>r. dict_row header r ''File Name'' = Some (?cell r)"
  proof -
    fix r :: "string list"
    show "dict_row header r ''File Name'' = Some (?cell r)"
    proof (cases "j < length r")
      case True
      then show ?thesis using dict_row_cell [OF assms(4) True assms(5) assms(6)] by simp
    next
      case False
      then show ?thesis using dict_row_short [OF assms(4) _ assms(5), of r] by simp
    qed
  qed
  have rm: "read_manifest w m = Inr (map ?cell ?rs)"
    using append_file_names_cells [of ?rs header ?cell "[]", OF cell]
    by (simp add: read_manifest_def assms(2) DictReader_def)
  have v: "verify w temp_dir (Some m) n_files = Inr (Some ` fst ` set es = ?cell ` set ?rs)"
    using assms(1,3) rm
    by (simp add: verify_def truthy_str_def check_prefetch_against_manifest_def listdir_def
          image_image del: set_filter)
  show ?thesis
  proof (cases "\<forall>r \<in> set rows. r \<noteq> [] \<longrightarrow> j < length r")
    case True
    then have "?cell ` set ?rs = Some ` (\<lambda>r. r ! j) ` set ?rs" by (auto simp: image_iff)
    moreover have "(Some ` fst ` set es = Some ` (\<lambda>r. r ! j) ` set ?rs)
                   = (fst ` set es = (\<lambda>r. r ! j) ` set ?rs)"
      by (rule inj_image_eq_iff) simp
    ultimately show ?thesis using v True by (simp del: set_filter)
  next
    case False
    then obtain r where r: "r \<in> set ?rs" "\<not> j < length r" by auto
    then have "?cell r \<in> ?cell ` set ?rs" by (intro imageI)
    then have "None \<in> ?cell ` set ?rs" using r(2) by simp
    moreover have "None \<notin> Some ` fst ` set es" by auto
    ultimately have "Some ` fst ` set es \<noteq> ?cell ` set ?rs" by metis
    then show ?thesis using v False by simp
  qed
qed

lemma sets_differ: "x \<in> B \<Longrightarrow> x \<notin> A \<Longrightarrow> A \<noteq> B"
  by blast

lemma sets_differ': "x \<in> A \<Longrightarrow> x \<notin> B \<Longrightarrow> A \<noteq> B"
  by blast

text \<open>
  The manifest names \<open>c, a, b, a\<close>: the directory \<open>a, b, c\<close> passes, the directories \<open>a, b\<close>
  and \<open>a, b, c, d\<close> fail, and so does \<open>A, b, c\<close>.
\<close>

theorem manifest_check_witness:
  "''/data/m.csv'' \<noteq> []
   \<and> manifests (with_manifest m_abc w_three) (cwd (with_manifest m_abc w_three)) ''/data/m.csv''
       = Some ([''Size'', ''File Name'']
               # [[''1'', ''c''], [], [''2'', ''a''], [''3'', ''b''], [''2'', ''a'']])
   \<and> [''Size'', ''File Name''] ! 1 = ''File Name''
   \<and> verify (with_manifest m_abc w_three) ''/tmp/tmpk3'' (Some ''/data/m.csv'') None = Inr True
   \<and> verify (with_manifest m_abc w_two) ''/tmp/tmpk3'' (Some ''/data/m.csv'') None = Inr False
   \<and> verify (with_manifest m_abc w_four) ''/tmp/tmpk3'' (Some ''/data/m.csv'') None = Inr False
   \<and> verify (with_manifest m_abc w_upper) ''/tmp/tmpk3'' (Some ''/data/m.csv'') None = Inr False"
proof -
  have h: "\<And>j'. 1 < j' \<Longrightarrow> j' < length [''Size'', ''File Name''] \<Longrightarrow>
             [''Size'', ''File Name''] ! j' \<noteq> ''File Name''"
    by simp
  have r: "\<forall>r \<in> set [[''1'', ''c''], [], [''2'', ''a''], [''3'', ''b''], [''2'', ''a'']].
             r \<noteq> [] \<longrightarrow> 1 < length r"
    by simp
  have m: "\<And>w. manifests (with_manifest m_abc w) (cwd (with_manifest m_abc w)) ''/data/m.csv''
       = Some ([''Size'', ''File Name'']
               # [[''1'', ''c''], [], [''2'', ''a''], [''3'', ''b''], [''2'', ''a'']])"
    by (simp add: with_manifest_def m_abc_def)
  have t3: "temp (with_manifest m_abc w_three)
              = Some [(''a'', File ''1''), (''b'', File ''2''), (''c'', File ''3'')]"
    by (simp add: with_manifest_def w_three_def)
  have t2: "temp (with_manifest m_abc w_two) = Some [(''a'', File ''1''), (''b'', File ''2'')]"
    by (simp add: with_manifest_def w_two_def)
  have t4: "temp (with_manifest m_abc w_four)
              = Some [(''a'', File ''1''), (''b'', File ''2''), (''c'', File ''3''), (''d'', File ''4'')]"
    by (simp add: with_manifest_def w_four_def)
  have tu: "temp (with_manifest m_abc w_upper)
              = Some [(''A'', File ''1''), (''b'', File ''2''), (''c'', File ''3'')]"
    by (simp add: with_manifest_def w_upper_def)
  have n: "''/data/m.csv'' \<noteq> []" by simp
  have l: "1 < length [''Size'', ''File Name'']" by simp
  have c: "[''Size'', ''File Name''] ! 1 = ''File Name''" by simp
  have s3: "{''a'', ''b'', ''c''} = {''c'', ''a'', ''b'', ''a''}" by auto
  have s2: "{''a'', ''b''} \<noteq> {''c'', ''a'', ''b'', ''a''}"
    by (rule sets_differ [of "''c''"]) simp_all
  have s4: "{''a'', ''b'', ''c'', ''d''} \<noteq> {''c'', ''a'', ''b'', ''a''}"
    by (rule sets_differ' [of "''d''"]) simp_all
  have su: "{''A'', ''b'', ''c''} \<noteq> {''c'', ''a'', ''b'', ''a''}"
    by (rule sets_differ' [of "''A''"]) simp_all
  have v3: "verify (with_manifest m_abc w_three) ''/tmp/tmpk3'' (Some ''/data/m.csv'') None = Inr True"
    using manifest_check [OF n m t3 l c h, of "''/tmp/tmpk3''" None] s3 r by simp
  have v2: "verify (with_manifest m_abc w_two) ''/tmp/tmpk3'' (Some ''/data/m.csv'') None = Inr False"
    using manifest_check [OF n m t2 l c h, of "''/tmp/tmpk3''" None] s2 r by simp
  have v4: "verify (with_manifest m_abc w_four) ''/tmp/tmpk3'' (Some ''/data/m.csv'') None = Inr False"
    using manifest_check [OF n m t4 l c h, of "''/tmp/tmpk3''" None] s4 r by simp
  have vu: "verify (with_manifest m_abc w_upper) ''/tmp/tmpk3'' (Some ''/data/m.csv'') None = Inr False"
    using manifest_check [OF n m tu l c h, of "''/tmp/tmpk3''" None] su r by simp
  show ?thesis
    using v3 v2 v4 vu m [of w_three] by simp
qed

text \<open>
  Claim C4 as stated fails for a manifest with a row that does not reach the column: of the rows
  \<^verbatim>\<open>1,a\<close> and \<^verbatim>\<open>2\<close> under the header \<^verbatim>\<open>Size,File Name\<close> the names of the column are
  \<open>a\<close> alone, and the directory holds \<open>a\<close> alone, but the check fails. It fails also for a
  manifest given by a path that opens where the call is made and not in the temporary directory:
  the names agree and the check raises \<^verbatim>\<open>FileNotFoundError\<close>.
\<close>

theorem manifest_check_counterexample:
  "map_option (map fst) (temp w_one) = Some [''a'']
   \<and> map (\<lambda>r. r ! 1) (filter (\<lambda>r. 1 < length r) (tl m_short)) = [''a'']
   \<and> verify (with_manifest m_short w_one) ''/tmp/tmpk3'' (Some ''/data/m.csv'') None = Inr False
   \<and> manifests (with_relative_manifest m_a w_one) ''/home/u'' ''m.csv'' = Some m_a
   \<and> map (\<lambda>r. r ! 1) (tl m_a) = [''a'']
   \<and> verify (with_relative_manifest m_a w_one) ''/tmp/tmpk3'' (Some ''m.csv'') None
       = Inl (FileNotFoundError ''m.csv'')"
  by (simp add: w_one_def w_init_def m_short_def m_a_def with_manifest_def
        with_relative_manifest_def verify_def truthy_str_def check_prefetch_against_manifest_def
        read_manifest_def DictReader_def dict_row_def setitem_def listdir_def)

lemma cwd_after_runs: "cwd (after_runs t self cf j w) = cwd w"
  by (induction j arbitrary: w) (simp_all add: run_prefetch_def subprocess_call_def case_prod_beta)

lemma read_manifest_missing_column:
  assumes "manifests w (cwd w) m = Some (header # rows)"
    and "''File Name'' \<notin> set header"
    and "\<exists>r \<in> set rows. r \<noteq> []"
  shows "read_manifest w m = Inl (KeyError ''File Name'')"
proof -
  have "filter (\<lambda>r. r \<noteq> []) rows \<noteq> []" using assms(3) by (auto simp: filter_empty_conv)
  then have "append_file_names (map (dict_row header) (filter (\<lambda>r. r \<noteq> []) rows)) []
               = Inl (KeyError ''File Name'')"
    by (rule append_file_names_missing) (simp add: dict_row_missing assms(2))
  then show ?thesis by (simp add: read_manifest_def assms(1) DictReader_def)
qed

text \<open>
  Claim C6, as the code has it. Let the call be made in a current directory that exists, let a
  manifest be supplied (a path that is not empty) that opens in the temporary directory after the
  first run of the Downloader, let its header lack the column \<^verbatim>\<open>File Name\<close> and let it have a
  non-empty row after the header, and let \<^verbatim>\<open>n_retries\<close> differ from 1, so that the first attempt
  is checked. Then \<^verbatim>\<open>KeyError\<close> leaves \<^verbatim>\<open>download_files\<close> after one invocation of the
  Downloader, whatever the expected count.
\<close>

theorem missing_column_raises:
  assumes "exists_dir w (cwd w)" and "m \<noteq> []"
    and "manifests (after_runs t self (abspath t (cwd w) cart) 1 (start t w)) (mkdtemp t w) m
           = Some (header # rows)"
    and "''File Name'' \<notin> set header"
    and "\<exists>r \<in> set rows. r \<noteq> []"
    and "n \<noteq> 1" and "1 \<le> fuel"
  shows "download_files fuel t self cart (Some m) n_files n do_untar w
           = Some (Inl (KeyError ''File Name''),
                   cleanup (mkdtemp t w) (after_runs t self (abspath t (cwd w) cart) 1 (start t w)))
         \<and> downloader_runs
               (cleanup (mkdtemp t w) (after_runs t self (abspath t (cwd w) cart) 1 (start t w)))
           = downloader_runs w + 1"
proof -
  let ?cf = "abspath t (cwd w) cart"
  let ?w1 = "after_runs t self ?cf 1 (start t w)"
  have "cwd ?w1 = mkdtemp t w" by (simp only: cwd_after_runs) (simp add: start_def)
  then have "read_manifest ?w1 m = Inl (KeyError ''File Name'')"
    using assms(3,4,5) by (intro read_manifest_missing_column) simp_all
  then have v: "verify ?w1 (mkdtemp t w) (Some m) n_files = Inl (KeyError ''File Name'')"
    using assms(2) by (simp add: verify_def truthy_str_def check_prefetch_against_manifest_def)
  obtain fuel' where f: "fuel = Suc fuel'" using assms(7) by (cases fuel) auto
  have "attempts fuel t self ?cf (mkdtemp t w) (Some m) n_files n 1 (start t w)
          = Some (Inl (KeyError ''File Name''), ?w1)"
    using v assms(6) by (simp add: f case_prod_beta)
  then have a: "download_files fuel t self cart (Some m) n_files n do_untar w
                  = Some (Inl (KeyError ''File Name''), cleanup (mkdtemp t w) ?w1)"
    by (simp add: download_files_loop [OF assms(1)])
  have b: "downloader_runs (cleanup (mkdtemp t w) ?w1) = downloader_runs w + 1"
    by (simp only: runs_cleanup runs_after_runs runs_start)
  from a b show ?thesis by simp
qed

text \<open>A manifest with the columns \<^verbatim>\<open>Name\<close> and \<^verbatim>\<open>Size\<close> and one row, three attempts allowed.\<close>

theorem missing_column_raises_witness:
  "exists_dir (with_manifest m_nocol w_init) (cwd (with_manifest m_nocol w_init))
   \<and> ''/data/m.csv'' \<noteq> [] \<and> ''File Name'' \<notin> set [''Name'', ''Size'']
   \<and> (\<exists>r \<in> set [[''a.dat'', ''1'']]. r \<noteq> []) \<and> (3::int) \<noteq> 1 \<and> (1::nat) \<le> 3
   \<and> map_option (\<lambda>r. (fst r, downloader_runs (snd r)))
        (download_files 3 idle_tools fx ''cart.krt'' (Some ''/data/m.csv'') (Some 1) 3 False
           (with_manifest m_nocol w_init))
       = Some (Inl (KeyError ''File Name''), 1)"
proof -
  have m: "manifests (after_runs idle_tools fx
               (abspath idle_tools (cwd (with_manifest m_nocol w_init)) ''cart.krt'') 1
               (start idle_tools (with_manifest m_nocol w_init)))
             (mkdtemp idle_tools (with_manifest m_nocol w_init)) ''/data/m.csv''
           = Some ([''Name'', ''Size''] # [[''a.dat'', ''1'']])"
    by (simp add: with_manifest_def m_nocol_def idle_tools_def start_def run_prefetch_def
          subprocess_call_def)
  have n: "''/data/m.csv'' \<noteq> []" by simp
  have c: "''File Name'' \<notin> set [''Name'', ''Size'']" by simp
  have r: "\<exists>r \<in> set [[''a.dat'', ''1'']]. r \<noteq> []" by simp
  have z: "downloader_runs (with_manifest m_nocol w_init) = 0"
    by (simp add: downloader_runs_def with_manifest_def w_init_def)
  have e: "exists_dir (with_manifest m_nocol w_init) (cwd (with_manifest m_nocol w_init))"
    by (simp add: with_manifest_def w_init_def)
  show ?thesis
    using missing_column_raises [OF e n m c r, where n = 3 and fuel = 3 and n_files = "Some 1"
            and do_untar = False] z e
    by simp
qed

text \<open>
  Claim C6 as stated fails for a manifest that is a header without the column and no row: no row
  is read, nothing is raised, the empty directory matches the empty list of names, and the call
  returns \<^verbatim>\<open>True\<close>. It fails also with one attempt allowed, where nothing is checked: the
  manifest with a row and without the column is not read, and the call returns \<^verbatim>\<open>False\<close>.
\<close>

theorem missing_column_raises_counterexample:
  "''File Name'' \<notin> set (hd m_header_only)
   \<and> map_option fst
        (download_files 2 idle_tools fx ''cart.krt'' (Some ''/data/m.csv'') None 2 False
           (with_manifest m_header_only w_init))
       = Some (Inr True)
   \<and> ''File Name'' \<notin> set (hd m_nocol)
   \<and> map_option fst
        (download_files 1 idle_tools fx ''cart.krt'' (Some ''/data/m.csv'') None 1 False
           (with_manifest m_nocol w_init))
       = Some (Inr False)"
  by (simp add: eval_nat_numeral download_files_def os_path_abspath_def os_getcwd_def
        os_chdir_def startswith_def idle_tools_def fx_def w_init_def
        with_manifest_def m_header_only_def m_nocol_def start_def run_prefetch_def
        subprocess_call_def
        verify_def truthy_str_def check_prefetch_against_manifest_def read_manifest_def
        DictReader_def listdir_def finish_def copytree_def cleanup_def Let_def)

subsection \<open>Extraction\<close>


















subsection \<open>Relocation\<close>





lemma lookup_Nil [simp]: "lookup [] p = None"
  by (cases p) simp_all














subsection \<open>The bound on the attempts\<close>

text \<open>
  For \<^verbatim>\<open>n_retries\<close> of 1 or more the call ends, whatever the external programs do, after at
  most \<^verbatim>\<open>n_retries\<close> runs of the Downloader.
\<close>

lemma attempts_returns:
  assumes "i \<le> n" and "nat (n - i) < fuel"
  shows "\<exists>r k. attempts fuel t self cf td m nf n i w = Some (r, after_runs t self cf k w)
               \<and> 1 \<le> k \<and> k \<le> Suc (nat (n - i))"
  using assms
proof (induction fuel arbitrary: i w)
  case 0
  then show ?case by simp
next
  case (Suc fuel)
  let ?w1 = "snd (run_prefetch t self cf w)"
  have one: "after_runs t self cf 1 w = ?w1" by simp
  show ?case
  proof (cases "i = n")
    case True
    then have "attempts (Suc fuel) t self cf td m nf n i w = Some (Inr False, after_runs t self cf 1 w)"
      by (simp add: case_prod_beta)
    then show ?thesis by (intro exI [of _ "Inr False"] exI [of _ 1]) simp
  next
    case False
    with Suc.prems(1) have lt: "i < n" by simp
    show ?thesis
    proof (cases "verify ?w1 td m nf")
      case (Inl e)
      then have "attempts (Suc fuel) t self cf td m nf n i w = Some (Inl e, after_runs t self cf 1 w)"
        using False by (simp add: case_prod_beta)
      then show ?thesis by (intro exI [of _ "Inl e"] exI [of _ 1]) simp
    next
      case (Inr b)
      show ?thesis
      proof (cases b)
        case True
        then have "attempts (Suc fuel) t self cf td m nf n i w
                     = Some (Inr True, after_runs t self cf 1 w)"
          using False Inr by (simp add: case_prod_beta)
        then show ?thesis by (intro exI [of _ "Inr True"] exI [of _ 1]) simp
      next
        case nb: False
        have "\<exists>r k. attempts fuel t self cf td m nf n (i + 1) ?w1
                       = Some (r, after_runs t self cf k ?w1)
                     \<and> 1 \<le> k \<and> k \<le> Suc (nat (n - (i + 1)))"
          using lt Suc.prems(2) by (intro Suc.IH) simp_all
        then obtain r k where
          a: "attempts fuel t self cf td m nf n (i + 1) ?w1 = Some (r, after_runs t self cf k ?w1)"
          and k: "1 \<le> k" "k \<le> Suc (nat (n - (i + 1)))"
          by blast
        have "attempts (Suc fuel) t self cf td m nf n i w
                = Some (r, after_runs t self cf (Suc k) w)"
          using False Inr nb a by (simp add: case_prod_beta)
        moreover have "Suc k \<le> Suc (nat (n - i))" using k(2) lt by simp
        ultimately show ?thesis by (intro exI [of _ r] exI [of _ "Suc k"]) simp
      qed
    qed
  qed
qed

lemma download_files_returns:
  assumes "1 \<le> n" and "nat n \<le> fuel"
  shows "\<exists>r w'. download_files fuel t self cart manifest n_files n do_untar w = Some (r, w')
               \<and> downloader_runs w' \<le> downloader_runs w + nat n"
proof (cases "exists_dir w (cwd w)")
  case False
  then show ?thesis by (simp add: download_files_gone)
next
  case True
  note loop = download_files_loop [OF True]
  let ?cf = "abspath t (cwd w) cart"
  let ?td = "mkdtemp t w"
  have f: "nat (n - 1) < fuel" using assms by simp
  obtain r k where
    a: "attempts fuel t self ?cf ?td manifest n_files n 1 (start t w)
          = Some (r, after_runs t self ?cf k (start t w))"
    and k: "k \<le> Suc (nat (n - 1))"
    using attempts_returns [OF assms(1) f, of t self ?cf ?td manifest n_files "start t w"]
    by blast
  let ?wk = "after_runs t self ?cf k (start t w)"
  have rk: "downloader_runs ?wk \<le> downloader_runs w + nat n"
    using k assms(1) by (simp add: runs_after_runs runs_start)
  show ?thesis
  proof (cases r)
    case (Inl e)
    then show ?thesis using a rk by (simp add: loop runs_cleanup)
  next
    case (Inr b)
    show ?thesis
    proof (cases b)
      case True
      have "downloader_runs (cleanup ?td (snd (finish t self ?td (cwd w) do_untar ?wk)))
              \<le> downloader_runs w + nat n"
        using rk by (simp add: runs_cleanup runs_finish)
      then show ?thesis using a Inr True by (simp add: loop case_prod_beta)
    next
      case False
      then show ?thesis using a Inr rk by (simp add: loop runs_cleanup)
    qed
  qed
qed

end
